theory Spec2Isabelle
  imports Main "HOL-Library.Word" "HOL-Library.Sublist"
begin

unbundle bit_operations_syntax

section \<open>The Mapsforge header and tag decoder of \<^verbatim>\<open>extract_tags.py\<close>\<close>

text \<open>
  The embedding follows \<^verbatim>\<open>MapFileReader\<close> in \<^verbatim>\<open>src/extract_tags.py\<close>. The file
  object is a forward-only stream of bytes with a cursor; Python integers are unbounded
  and modelled as \<^typ>\<open>nat\<close> (never negative here) or \<^typ>\<open>int\<close> (the signed
  \<^verbatim>\<open>'>i'\<close> fields); a Python \<^verbatim>\<open>str\<close> is the list of its code points; the exceptions
  that the \<^verbatim>\<open>try\<close> block of \<^verbatim>\<open>extract_tags\<close> catches are values of a sum type.

  The interpreter's \<^verbatim>\<open>f.read(n)\<close> allocates its result before it reads, so a count that
  the bytes at hand cannot satisfy raises when it is too large: \<^verbatim>\<open>OverflowError\<close> from
  \<open>2^63 - 33\<close> on (64-bit CPython: the count does not fit a bytes object), \<^verbatim>\<open>MemoryError\<close> when it is
  beyond what the running interpreter can allocate. That last bound belongs to the
  environment and is the parameter \<open>mem\<close> of every reader.

  Assumptions of the model: a file holds fewer than \<open>2^63 - 33\<close> bytes and bytes that
  are in the file fit in memory, so a read that the remaining bytes satisfy succeeds; a
  request of at most \<^verbatim>\<open>io.DEFAULT_BUFFER_SIZE\<close> bytes is served in every interpreter;
  opening the file succeeds; the diagnostic \<^verbatim>\<open>print\<close> calls under \<^verbatim>\<open>verbose\<close> have no effect on
  the stream, on the result or on \<^verbatim>\<open>self.tags\<close> and are left out; the division of
  the coordinates by \<^verbatim>\<open>1000000.0\<close> only feeds those prints, so coordinates are kept
  as the scaled integers read from the file.
\<close>

subsection \<open>Bytes, strings and the file stream\<close>

type_synonym byte = "8 word"

text \<open>A Python \<^verbatim>\<open>str\<close>: the sequence of its Unicode code points.\<close>

type_synonym pystr = "nat list"

definition str_of :: "string \<Rightarrow> pystr" where
  "str_of cs = map of_char cs"

definition bytes_of :: "string \<Rightarrow> byte list" where
  "bytes_of cs = map (\<lambda>c. of_nat (of_char c)) cs"

text \<open>
  The exceptions the decoder can meet: the explicit magic check (line 50, which prints and
  returns \<^verbatim>\<open>False\<close>), \<^verbatim>\<open>struct.error\<close> from \<^verbatim>\<open>struct.unpack\<close> on a buffer of the
  wrong length, \<^verbatim>\<open>IndexError\<close> from \<^verbatim>\<open>f.read(1)[0]\<close> at end of file, and the
  \<^verbatim>\<open>OverflowError\<close> and \<^verbatim>\<open>MemoryError\<close> of \<^verbatim>\<open>f.read\<close> on a count it cannot allocate.
\<close>

datatype error = InvalidMagic | StructError | IndexError | OverflowError | MemoryError

text \<open>
  What the specification calls \<^verbatim>\<open>TruncatedInput\<close>: the stream ended before a field
  could be read, which the code meets as one of the two exceptions of a short read.
\<close>

definition truncated_input :: "error \<Rightarrow> bool" where
  "truncated_input e \<longleftrightarrow> e = StructError \<or> e = IndexError"

text \<open>The open file: the bytes not yet read and the cursor (bytes consumed so far).\<close>

datatype stream = Stream (rest: "byte list") (pos: nat)

definition open_file :: "byte list \<Rightarrow> stream" where
  "open_file content = Stream content 0"

text \<open>
  A step of the decoder reads from the stream and either returns a value or raises; the
  stream keeps the cursor it had when the exception was raised.
\<close>

type_synonym 'a dec = "stream \<Rightarrow> (error + 'a) \<times> stream"

definition dreturn :: "'a \<Rightarrow> 'a dec" where
  "dreturn x f = (Inr x, f)"

definition dbind :: "'a dec \<Rightarrow> ('a \<Rightarrow> 'b dec) \<Rightarrow> 'b dec" where
  "dbind m k f = (case m f of (Inl e, f') \<Rightarrow> (Inl e, f') | (Inr x, f') \<Rightarrow> k x f')"

definition DEFAULT_BUFFER_SIZE :: nat where
  "DEFAULT_BUFFER_SIZE = 8192"

text \<open>
  \<^verbatim>\<open>f.read(n)\<close> in an interpreter that can allocate \<open>mem\<close> bytes: \<^verbatim>\<open>n\<close> bytes when
  that many remain; otherwise the result of \<^verbatim>\<open>n\<close> bytes is allocated first, which raises
  for a count from \<open>2^63 - 33\<close> on and for a count beyond \<open>mem\<close>, and then the bytes that
  remain are returned. The cursor moves past the bytes returned.
\<close>

fun f_read :: "nat \<Rightarrow> nat \<Rightarrow> byte list dec" where
  "f_read mem n (Stream bs p) =
     (if n \<le> length bs then (Inr (take n bs), Stream (drop n bs) (p + n))
      else if 2 ^ 63 - 33 \<le> n then (Inl OverflowError, Stream bs p)
      else if max mem DEFAULT_BUFFER_SIZE < n then (Inl MemoryError, Stream bs p)
      else (Inr bs, Stream [] (p + length bs)))"

subsection \<open>Variable-length integers (lines 21 to 34)\<close>

text \<open>
  The \<^verbatim>\<open>while True\<close> loop of \<^verbatim>\<open>read_variable_byte\<close>, with its two variables
  \<^verbatim>\<open>result\<close> and \<^verbatim>\<open>shift\<close>. It ends on every finite stream: each round reads one byte.
\<close>

function read_variable_byte_loop :: "stream \<Rightarrow> nat \<Rightarrow> nat \<Rightarrow> nat option \<times> stream" where
  "read_variable_byte_loop (Stream [] p) result shift = (None, Stream [] p)"
| "read_variable_byte_loop (Stream (b # bs) p) result shift =
     (let result' = result OR push_bit shift (unat (b AND 0x7F))
      in if b AND 0x80 = 0 then (Some result', Stream bs (p + 1))
         else read_variable_byte_loop (Stream bs (p + 1)) result' (shift + 7))"
  by pat_completeness auto
termination
  by (relation "measure (\<lambda>(f, result, shift). length (rest f))") auto

definition read_variable_byte :: "stream \<Rightarrow> nat option \<times> stream" where
  "read_variable_byte f = read_variable_byte_loop f 0 0"

subsection \<open>UTF-8 decoding with \<^verbatim>\<open>errors='ignore'\<close>\<close>

text \<open>
  \<^verbatim>\<open>bytes.decode('utf-8', errors='ignore')\<close> is the interpreter's decoder. One step
  looks at the bytes ahead and either decodes one code point from a well-formed sequence
  (\<open>Some\<close> with the number of bytes used) or reports an ill-formed one (\<open>None\<close> with the
  number of bytes the error covers: an invalid start byte alone, the bytes before an
  invalid continuation byte, or all of a sequence cut off by the end of the data).
\<close>

definition is_continuation :: "byte \<Rightarrow> bool" where
  "is_continuation b \<longleftrightarrow> 0x80 \<le> b \<and> b < 0xC0"

definition low6 :: "byte \<Rightarrow> nat" where
  "low6 b = unat (b AND 0x3F)"

fun utf8_step :: "byte list \<Rightarrow> nat option \<times> nat" where
  "utf8_step [] = (None, 0)"
| "utf8_step (ch # s) =
    (if ch < 0x80 then (Some (unat ch), 1)
     else if ch < 0xC2 then (None, 1)
     else if ch < 0xE0 then
       (case s of
          [] \<Rightarrow> (None, 1)
        | ch2 # _ \<Rightarrow>
            if \<not> is_continuation ch2 then (None, 1)
            else (Some (unat (ch AND 0x1F) * 64 + low6 ch2), 2))
     else if ch < 0xF0 then
       (case s of
          [] \<Rightarrow> (None, 1)
        | ch2 # s2 \<Rightarrow>
            if \<not> is_continuation ch2 \<or> (if ch2 < 0xA0 then ch = 0xE0 else ch = 0xED)
            then (None, 1)
            else (case s2 of
                    [] \<Rightarrow> (None, 2)
                  | ch3 # _ \<Rightarrow>
                      if \<not> is_continuation ch3 then (None, 2)
                      else (Some (unat (ch AND 0x0F) * 4096 + low6 ch2 * 64 + low6 ch3), 3)))
     else if ch < 0xF5 then
       (case s of
          [] \<Rightarrow> (None, 1)
        | ch2 # s2 \<Rightarrow>
            if \<not> is_continuation ch2 \<or> (if ch2 < 0x90 then ch = 0xF0 else ch = 0xF4)
            then (None, 1)
            else (case s2 of
                    [] \<Rightarrow> (None, 2)
                  | ch3 # s3 \<Rightarrow>
                      if \<not> is_continuation ch3 then (None, 2)
                      else (case s3 of
                              [] \<Rightarrow> (None, 3)
                            | ch4 # _ \<Rightarrow>
                                if \<not> is_continuation ch4 then (None, 3)
                                else (Some (unat (ch AND 0x07) * 262144 + low6 ch2 * 4096
                                            + low6 ch3 * 64 + low6 ch4), 4))))
     else (None, 1))"

text \<open>With \<^verbatim>\<open>errors='ignore'\<close> the bytes of an ill-formed sequence are skipped.\<close>

function utf8_decode_ignore :: "byte list \<Rightarrow> pystr" where
  "utf8_decode_ignore bs =
     (if bs = [] then []
      else (case utf8_step bs of
              (Some cp, k) \<Rightarrow> cp # utf8_decode_ignore (drop k bs)
            | (None, k) \<Rightarrow> utf8_decode_ignore (drop k bs)))"
  by pat_completeness auto
termination
  apply (relation "measure length")
    apply simp
   apply (auto simp: neq_Nil_conv split: if_splits list.splits)
  done

declare utf8_decode_ignore.simps [simp del]

subsection \<open>Length-prefixed strings (lines 36 to 42)\<close>

text \<open>
  The only exception \<^verbatim>\<open>read_utf8_string\<close> can raise is the one of \<^verbatim>\<open>f.read(length)\<close>:
  the decoding is lenient and never fails.
\<close>

definition read_utf8_string :: "nat \<Rightarrow> pystr dec" where
  "read_utf8_string mem f =
     (case read_variable_byte f of
        (None, f') \<Rightarrow> (Inr [], f')
      | (Some len, f') \<Rightarrow>
          if len = 0 then (Inr [], f')
          else (case f_read mem len f' of
                  (Inl e, f'') \<Rightarrow> (Inl e, f'')
                | (Inr string_bytes, f'') \<Rightarrow> (Inr (utf8_decode_ignore string_bytes), f'')))"

subsection \<open>Fixed-width big-endian fields\<close>

definition be_nat :: "byte list \<Rightarrow> nat" where
  "be_nat buf = foldl (\<lambda>acc b. acc * 256 + unat b) 0 buf"

text \<open>
  \<^verbatim>\<open>struct.unpack\<close> with the formats \<^verbatim>\<open>'>H'\<close>, \<^verbatim>\<open>'>I'\<close>, \<^verbatim>\<open>'>Q'\<close> (unsigned, 2, 4 and
  8 bytes) and \<^verbatim>\<open>'>i'\<close> (signed, 4 bytes): \<^verbatim>\<open>struct.error\<close> unless the buffer has
  exactly the width of the format.
\<close>

definition unpack_unsigned :: "nat \<Rightarrow> byte list \<Rightarrow> error + nat" where
  "unpack_unsigned width buf =
     (if length buf = width then Inr (be_nat buf) else Inl StructError)"

definition unpack_signed :: "nat \<Rightarrow> byte list \<Rightarrow> error + int" where
  "unpack_signed width buf =
     (if length buf = width
      then Inr (let u = int (be_nat buf)
                in if u < 2 ^ (8 * width - 1) then u else u - 2 ^ (8 * width))
      else Inl StructError)"

text \<open>\<^verbatim>\<open>struct.unpack(fmt, f.read(width))[0]\<close>\<close>

definition read_unsigned :: "nat \<Rightarrow> nat \<Rightarrow> nat dec" where
  "read_unsigned mem width =
     dbind (f_read mem width) (\<lambda>buf f'. (unpack_unsigned width buf, f'))"

definition read_signed :: "nat \<Rightarrow> nat \<Rightarrow> int dec" where
  "read_signed mem width =
     dbind (f_read mem width) (\<lambda>buf f'. (unpack_signed width buf, f'))"

text \<open>\<^verbatim>\<open>f.read(1)[0]\<close>: indexing the empty bytes object at end of file raises.\<close>

definition read_byte :: "nat \<Rightarrow> nat dec" where
  "read_byte mem =
     dbind (f_read mem 1)
       (\<lambda>buf f'. case buf of [] \<Rightarrow> (Inl IndexError, f') | b # _ \<Rightarrow> (Inr (unat b), f'))"

subsection \<open>The header (lines 48 to 133)\<close>

definition MAGIC_BYTE :: "byte list" where
  "MAGIC_BYTE = bytes_of ''mapsforge binary OSM''"

definition check_magic :: "nat \<Rightarrow> unit dec" where
  "check_magic mem =
     dbind (f_read mem (length MAGIC_BYTE))
       (\<lambda>magic f'. if magic \<noteq> MAGIC_BYTE then (Inl InvalidMagic, f') else (Inr (), f'))"

record header =
  header_size :: nat
  file_version :: nat
  file_size :: nat
  date_created :: nat
  min_lat :: int
  min_lon :: int
  max_lat :: int
  max_lon :: int
  tile_size :: nat
  projection :: pystr
  flags :: nat

definition read_fixed_header :: "nat \<Rightarrow> header dec" where
  "read_fixed_header mem =
     dbind (read_unsigned mem 4) (\<lambda>header_size.
     dbind (read_unsigned mem 4) (\<lambda>file_version.
     dbind (read_unsigned mem 8) (\<lambda>file_size.
     dbind (read_unsigned mem 8) (\<lambda>date_created.
     dbind (read_signed mem 4) (\<lambda>min_lat.
     dbind (read_signed mem 4) (\<lambda>min_lon.
     dbind (read_signed mem 4) (\<lambda>max_lat.
     dbind (read_signed mem 4) (\<lambda>max_lon.
     dbind (read_unsigned mem 2) (\<lambda>tile_size.
     dbind (read_utf8_string mem) (\<lambda>projection.
     dbind (read_byte mem) (\<lambda>flags.
     dreturn \<lparr>header_size = header_size, file_version = file_version,
              file_size = file_size, date_created = date_created,
              min_lat = min_lat, min_lon = min_lon, max_lat = max_lat, max_lon = max_lon,
              tile_size = tile_size, projection = projection, flags = flags\<rparr>)))))))))))"

definition has_map_start_position :: "nat \<Rightarrow> bool" where
  "has_map_start_position fl \<longleftrightarrow> fl AND 0x40 \<noteq> 0"

definition has_start_zoom :: "nat \<Rightarrow> bool" where
  "has_start_zoom fl \<longleftrightarrow> fl AND 0x20 \<noteq> 0"

definition has_language_preference :: "nat \<Rightarrow> bool" where
  "has_language_preference fl \<longleftrightarrow> fl AND 0x10 \<noteq> 0"

definition has_comment :: "nat \<Rightarrow> bool" where
  "has_comment fl \<longleftrightarrow> fl AND 0x08 \<noteq> 0"

definition has_created_by :: "nat \<Rightarrow> bool" where
  "has_created_by fl \<longleftrightarrow> fl AND 0x04 \<noteq> 0"

record optional_fields =
  start_position :: "(int \<times> int) option"
  start_zoom :: "nat option"
  language :: "pystr option"
  comment :: "pystr option"
  created_by :: "pystr option"

definition read_optional_fields :: "nat \<Rightarrow> nat \<Rightarrow> optional_fields dec" where
  "read_optional_fields mem fl =
     dbind (if has_map_start_position fl
            then dbind (read_signed mem 4) (\<lambda>start_lat.
                 dbind (read_signed mem 4) (\<lambda>start_lon. dreturn (Some (start_lat, start_lon))))
            else dreturn None) (\<lambda>start_position.
     dbind (if has_start_zoom fl
            then dbind (read_byte mem) (\<lambda>z. dreturn (Some z)) else dreturn None) (\<lambda>start_zoom.
     dbind (if has_language_preference fl
            then dbind (read_utf8_string mem) (\<lambda>s. dreturn (Some s)) else dreturn None) (\<lambda>language.
     dbind (if has_comment fl
            then dbind (read_utf8_string mem) (\<lambda>s. dreturn (Some s)) else dreturn None) (\<lambda>comment.
     dbind (if has_created_by fl
            then dbind (read_utf8_string mem) (\<lambda>s. dreturn (Some s)) else dreturn None) (\<lambda>created_by.
     dreturn \<lparr>start_position = start_position, start_zoom = start_zoom,
              language = language, comment = comment, created_by = created_by\<rparr>)))))"

subsection \<open>The tag tables and the zoom intervals (lines 135 to 184)\<close>

text \<open>The two \<^verbatim>\<open>for i in range(n)\<close> loops that append one string per round.\<close>

fun read_tags :: "nat \<Rightarrow> nat \<Rightarrow> pystr list \<Rightarrow> pystr list dec" where
  "read_tags mem 0 tags = dreturn tags"
| "read_tags mem (Suc n) tags =
     dbind (read_utf8_string mem) (\<lambda>tag. read_tags mem n (tags @ [tag]))"

record zoom_interval =
  base_zoom :: nat
  min_zoom :: nat
  max_zoom :: nat
  subfile_start :: nat
  subfile_size :: nat

definition read_zoom_interval :: "nat \<Rightarrow> zoom_interval dec" where
  "read_zoom_interval mem =
     dbind (read_byte mem) (\<lambda>base_zoom.
     dbind (read_byte mem) (\<lambda>min_zoom.
     dbind (read_byte mem) (\<lambda>max_zoom.
     dbind (read_unsigned mem 8) (\<lambda>subfile_start.
     dbind (read_unsigned mem 8) (\<lambda>subfile_size.
     dreturn \<lparr>base_zoom = base_zoom, min_zoom = min_zoom, max_zoom = max_zoom,
              subfile_start = subfile_start, subfile_size = subfile_size\<rparr>)))))"

fun read_zoom_intervals :: "nat \<Rightarrow> nat \<Rightarrow> zoom_interval list \<Rightarrow> zoom_interval list dec" where
  "read_zoom_intervals mem 0 zs = dreturn zs"
| "read_zoom_intervals mem (Suc n) zs =
     dbind (read_zoom_interval mem) (\<lambda>z. read_zoom_intervals mem n (zs @ [z]))"

text \<open>
  The dictionary assigned to \<^verbatim>\<open>self.tags\<close> (lines 186 to 190), and the local variables
  of the table decoder: the three sequences together with the three counts they were
  read under.
\<close>

record map_file_tags =
  poi_tags :: "pystr list"
  way_tags :: "pystr list"
  zoom_intervals :: "zoom_interval list"

record decoded = map_file_tags +
  num_poi_tags :: nat
  num_way_tags :: nat
  num_zoom_intervals :: nat

definition read_tables :: "nat \<Rightarrow> decoded dec" where
  "read_tables mem =
     dbind (read_unsigned mem 2) (\<lambda>num_poi_tags.
     dbind (read_tags mem num_poi_tags []) (\<lambda>poi_tags.
     dbind (read_unsigned mem 2) (\<lambda>num_way_tags.
     dbind (read_tags mem num_way_tags []) (\<lambda>way_tags.
     dbind (read_byte mem) (\<lambda>num_zoom_intervals.
     dbind (read_zoom_intervals mem num_zoom_intervals []) (\<lambda>zoom_intervals.
     dreturn \<lparr>poi_tags = poi_tags, way_tags = way_tags, zoom_intervals = zoom_intervals,
              num_poi_tags = num_poi_tags, num_way_tags = num_way_tags,
              num_zoom_intervals = num_zoom_intervals\<rparr>))))))"

subsection \<open>\<^verbatim>\<open>extract_tags\<close> (lines 44 to 198)\<close>

text \<open>The body of the \<^verbatim>\<open>with\<close> block up to the assignment of \<^verbatim>\<open>self.tags\<close>.\<close>

definition decode :: "nat \<Rightarrow> decoded dec" where
  "decode mem =
     dbind (check_magic mem) (\<lambda>_.
     dbind (read_fixed_header mem) (\<lambda>h.
     dbind (read_optional_fields mem (flags h)) (\<lambda>_.
     read_tables mem)))"

text \<open>
  The reader object. \<^verbatim>\<open>self.tags\<close> starts as the empty list (\<open>None\<close> here) and holds
  the dictionary after a successful call.
\<close>

record reader =
  filepath :: string
  tags :: "map_file_tags option"

definition new_reader :: "string \<Rightarrow> reader" where
  "new_reader path = \<lparr>filepath = path, tags = None\<rparr>"

text \<open>
  \<^verbatim>\<open>extract_tags\<close> on a file with the given content: \<^verbatim>\<open>True\<close> and the dictionary stored
  in \<^verbatim>\<open>self.tags\<close>, or \<^verbatim>\<open>False\<close> from the magic check or from the exception handler.
\<close>

definition extract_tags :: "nat \<Rightarrow> reader \<Rightarrow> byte list \<Rightarrow> bool \<times> reader" where
  "extract_tags mem self content =
     (case decode mem (open_file content) of
        (Inr d, _) \<Rightarrow> (True, self\<lparr>tags := Some (map_file_tags.truncate d)\<rparr>)
      | (Inl e, _) \<Rightarrow> (False, self))"

section \<open>Encoders and notions used in the statements\<close>

text \<open>
  The encoder the specification describes: 7 data bits per byte, least significant group
  first, the high bit set on every byte but the last.
\<close>

fun encode_varint :: "nat \<Rightarrow> byte list" where
  "encode_varint n =
     (if n < 128 then [of_nat n]
      else of_nat (128 + n mod 128) # encode_varint (n div 128))"

declare encode_varint.simps [simp del]

text \<open>Big-endian fields and ASCII strings as a producer of the format writes them.\<close>

fun be_bytes :: "nat \<Rightarrow> nat \<Rightarrow> byte list" where
  "be_bytes 0 n = []"
| "be_bytes (Suc w) n = be_bytes w (n div 256) @ [of_nat (n mod 256)]"

definition ascii :: "string \<Rightarrow> bool" where
  "ascii cs \<longleftrightarrow> (\<forall>c\<in>set cs. (of_char c :: nat) < 128)"

definition encode_string :: "string \<Rightarrow> byte list" where
  "encode_string cs = encode_varint (length cs) @ bytes_of cs"

text \<open>A complete length-prefixed string: a terminated varint and exactly that many bytes.\<close>

definition string_entry :: "byte list \<Rightarrow> bool" where
  "string_entry e \<longleftrightarrow>
     (case read_variable_byte (Stream e 0) of
        (Some n, f') \<Rightarrow> length (rest f') = n
      | (None, _) \<Rightarrow> False)"

text \<open>The synthetic buffer of the round-trip scenario, field by field.\<close>

definition sample_prefix :: "byte list" where
  "sample_prefix =
     MAGIC_BYTE @ be_bytes 4 0 @ be_bytes 4 5 @ be_bytes 8 100 @ be_bytes 8 0
     @ be_bytes 4 1000000 @ be_bytes 4 2000000 @ be_bytes 4 3000000 @ be_bytes 4 4000000
     @ be_bytes 2 256 @ encode_string ''EPSG:3857''"

definition sample_buffer :: "byte list" where
  "sample_buffer =
     sample_prefix @ [0x00]
     @ be_bytes 2 2 @ encode_string ''amenity=restaurant'' @ encode_string ''shop=bakery''
     @ be_bytes 2 1 @ encode_string ''highway=primary''
     @ [1] @ [14, 8, 17] @ be_bytes 8 1000 @ be_bytes 8 5000"

text \<open>The local variables of the decoder after the round-trip buffer.\<close>

definition sample_decoded :: decoded where
  "sample_decoded =
     \<lparr>poi_tags = [str_of ''amenity=restaurant'', str_of ''shop=bakery''],
      way_tags = [str_of ''highway=primary''],
      zoom_intervals = [\<lparr>base_zoom = 14, min_zoom = 8, max_zoom = 17,
                         subfile_start = 1000, subfile_size = 5000\<rparr>],
      num_poi_tags = 2, num_way_tags = 1, num_zoom_intervals = 1\<rparr>"

text \<open>
  The stream after one more string, and after one more zoom interval record: iterating
  them \<open>i\<close> times from the start of a table gives the stream the \<open>i\<close>-th read of that
  table starts from.
\<close>

definition skip_string :: "nat \<Rightarrow> stream \<Rightarrow> stream" where
  "skip_string mem f = snd (read_utf8_string mem f)"

definition skip_zoom_interval :: "nat \<Rightarrow> stream \<Rightarrow> stream" where
  "skip_zoom_interval mem f = snd (read_zoom_interval mem f)"

text \<open>
  The decoding the specification describes for \<^verbatim>\<open>read_string\<close>: the same scan, with the
  replacement character \<open>U+FFFD\<close> put in place of each ill-formed sequence (Python's
  \<^verbatim>\<open>errors='replace'\<close>). The source passes \<^verbatim>\<open>errors='ignore'\<close> instead.
\<close>

function utf8_decode_replace :: "byte list \<Rightarrow> pystr" where
  "utf8_decode_replace bs =
     (if bs = [] then []
      else (case utf8_step bs of
              (Some cp, k) \<Rightarrow> cp # utf8_decode_replace (drop k bs)
            | (None, k) \<Rightarrow> 0xFFFD # utf8_decode_replace (drop k bs)))"
  by pat_completeness auto
termination
  apply (relation "measure length")
    apply simp
   apply (auto simp: neq_Nil_conv split: if_splits list.splits)
  done

declare utf8_decode_replace.simps [simp del]

text \<open>A payload is well-formed UTF-8 when the scan meets no ill-formed sequence.\<close>

function utf8_well_formed :: "byte list \<Rightarrow> bool" where
  "utf8_well_formed bs =
     (if bs = [] then True
      else (case utf8_step bs of
              (Some cp, k) \<Rightarrow> utf8_well_formed (drop k bs)
            | (None, k) \<Rightarrow> False))"
  by pat_completeness auto
termination
  apply (relation "measure length")
   apply simp
  apply (auto simp: neq_Nil_conv split: if_splits list.splits)
  done

declare utf8_well_formed.simps [simp del]

text \<open>
  The memory of the interpreter in the concrete examples: 16 GiB. The general statements
  hold for every value.
\<close>

definition sample_mem :: nat where
  "sample_mem = 2 ^ 34"

section \<open>Properties\<close>

lemma utf8_step_consumes: "bs \<noteq> [] \<Longrightarrow> 0 < snd (utf8_step bs)"
  by (cases bs) (auto split: list.splits)

subsection \<open>Variable-length integers\<close>

lemma and_7F: "unat ((b::byte) AND 0x7F) = unat b mod 128"
proof -
  have "(0x7F :: byte) = mask 7" by (simp add: mask_eq_exp_minus_1)
  then have "b AND 0x7F = take_bit 7 b" by (simp add: take_bit_eq_mask)
  then have "unat (b AND 0x7F) = take_bit 7 (unat b)" by (simp only: unsigned_take_bit_eq)
  then show ?thesis by (simp add: take_bit_eq_mod)
qed

lemma and_80: "((b::byte) AND 0x80 = 0) \<longleftrightarrow> unat b < 128"
proof -
  have "(0x80 :: byte) = 2 ^ 7" by simp
  then have "(b AND 0x80 = 0) \<longleftrightarrow> \<not> bit b 7" by (simp only: and_exp_eq_0_iff_not_bit)
  also have "\<dots> \<longleftrightarrow> \<not> bit (unat b) 7" by (simp add: bit_unsigned_iff)
  also have "\<dots> \<longleftrightarrow> unat b < 128"
  proof -
    have "unat b < 256" using unsigned_less [of b, where 'a = nat] by simp
    show ?thesis
    proof (cases "unat b < 128")
      case True
      then show ?thesis by (simp add: bit_iff_odd_drop_bit drop_bit_eq_div)
    next
      case False
      with \<open>unat b < 256\<close> have "unat b div 128 = 1"
        by (intro div_nat_eqI) simp_all
      with False show ?thesis by (simp add: bit_iff_odd_drop_bit drop_bit_eq_div)
    qed
  qed
  finally show ?thesis .
qed

lemma unat_of_nat_byte: "n < 256 \<Longrightarrow> unat (of_nat n :: byte) = n"
  by (simp add: unat_of_nat)

lemma split7: "n mod 128 OR push_bit 7 (n div 128) = (n::nat)"
proof -
  have "take_bit 7 n OR push_bit 7 (drop_bit 7 n) = n"
  proof (rule bit_eqI)
    fix k
    show "bit (take_bit 7 n OR push_bit 7 (drop_bit 7 n)) k = bit n k"
    proof (cases "k < 7")
      case True
      then show ?thesis by (simp add: bit_simps)
    next
      case False
      then have "7 + (k - 7) = k" by simp
      with False show ?thesis by (simp add: bit_simps)
    qed
  qed
  then show ?thesis by (simp add: take_bit_eq_mod drop_bit_eq_div)
qed

lemma or_push_split:
  "(acc OR push_bit s (n mod 128)) OR push_bit (s + 7) (n div 128) = acc OR push_bit s (n::nat)"
proof -
  have "push_bit s n = push_bit s (n mod 128 OR push_bit 7 (n div 128))"
    by (simp only: split7)
  also have "\<dots> = push_bit s (n mod 128) OR push_bit (s + 7) (n div 128)"
    by (simp only: push_bit_or push_bit_push_bit)
  finally show ?thesis by (simp add: or.assoc)
qed

lemma unat_cont_byte: "unat (128 + of_nat (n mod 128) :: byte) = 128 + n mod 128"
proof -
  have "(128 + of_nat (n mod 128) :: byte) = of_nat (128 + n mod 128)" by simp
  then have "unat (128 + of_nat (n mod 128) :: byte) = (128 + n mod 128) mod 256"
    by (simp only: unat_of_nat) simp
  then show ?thesis by simp
qed

lemma loop_encode:
  "read_variable_byte_loop (Stream (encode_varint n @ r) p) acc s =
     (Some (acc OR push_bit s n), Stream r (p + length (encode_varint n)))"
proof (induction n arbitrary: p acc s rule: encode_varint.induct)
  case (1 n)
  show ?case
  proof (cases "n < 128")
    case True
    then show ?thesis
      by (simp add: encode_varint.simps [of n] and_7F and_80 unat_of_nat_byte)
  next
    case False
    have enc: "encode_varint n = of_nat (128 + n mod 128) # encode_varint (n div 128)"
      using False by (simp add: encode_varint.simps [of n])
    have b1: "unat (of_nat (128 + n mod 128) :: byte) = 128 + n mod 128"
      using unat_cont_byte [of n] by simp
    show ?thesis
      unfolding enc
      by (simp add: and_7F and_80 b1 1 [OF False] or_push_split del: of_nat_add)
  qed
qed

lemma read_variable_byte_encode:
  "read_variable_byte (Stream (encode_varint n @ r) p) =
     (Some n, Stream r (p + length (encode_varint n)))"
  by (simp add: read_variable_byte_def loop_encode)

text \<open>
  C4: for every unsigned integer \<open>n\<close> in \<open>[0, 2^63)\<close>, \<^verbatim>\<open>read_variable_byte\<close> on the
  varint encoding of \<open>n\<close> returns \<open>n\<close>, having consumed exactly the bytes of the encoding
  (whatever follows it in the stream is left unread).
\<close>

theorem read_variable_byte_roundtrip:
  "n < 2 ^ 63 \<Longrightarrow>
   read_variable_byte (Stream (encode_varint n @ r) p) =
     (Some n, Stream r (p + length (encode_varint n)))"
  by (rule read_variable_byte_encode)

theorem read_variable_byte_roundtrip_witness:
  "(300::nat) < 2 ^ 63 \<and> encode_varint 300 = [0xAC, 0x02] \<and>
   read_variable_byte (Stream (encode_varint 300 @ [0x41]) 0) = (Some 300, Stream [0x41] 2)"
  using read_variable_byte_roundtrip [of 300 "[0x41]" 0]
  by (simp add: encode_varint.simps)

subsection \<open>Reading what an encoder wrote\<close>

lemma length_be_bytes [simp]: "length (be_bytes w n) = w"
  by (induction w arbitrary: n) simp_all

lemma be_nat_snoc: "be_nat (bs @ [b]) = be_nat bs * 256 + unat b"
  by (simp add: be_nat_def)

lemma unat_low_byte: "unat (of_nat (n mod 256) :: byte) = n mod 256"
  by (simp add: unat_of_nat)

lemma be_nat_be_bytes: "be_nat (be_bytes w n) = n mod 256 ^ w"
proof (induction w arbitrary: n)
  case 0
  show ?case by (simp add: be_nat_def)
next
  case (Suc w)
  have "be_nat (be_bytes (Suc w) n) = (n div 256 mod 256 ^ w) * 256 + n mod 256"
    by (simp only: be_bytes.simps be_nat_snoc Suc unat_low_byte)
  also have "\<dots> = n mod 256 ^ Suc w"
    by (simp add: mod_mult2_eq)
  finally show ?case .
qed

lemma f_read_append:
  "length a = n \<Longrightarrow> f_read mem n (Stream (a @ r) p) = (Inr a, Stream r (p + n))"
  by simp

lemma f_read_small:
  "n \<le> 8192 \<Longrightarrow>
   f_read mem n (Stream bs p) = (Inr (take n bs), Stream (drop n bs) (p + length (take n bs)))"
  by (simp add: DEFAULT_BUFFER_SIZE_def min_def)

lemma f_read_complete:
  "n \<le> length bs \<Longrightarrow>
   f_read mem n (Stream bs p) = (Inr (take n bs), Stream (drop n bs) (p + n))"
  by simp

declare f_read.simps [simp del]

lemma read_unsigned_small:
  "w \<le> 8192 \<Longrightarrow>
   read_unsigned mem w (Stream bs p) =
     (unpack_unsigned w (take w bs), Stream (drop w bs) (p + length (take w bs)))"
  by (simp add: read_unsigned_def dbind_def f_read_small)

lemma read_signed_small:
  "w \<le> 8192 \<Longrightarrow>
   read_signed mem w (Stream bs p) =
     (unpack_signed w (take w bs), Stream (drop w bs) (p + length (take w bs)))"
  by (simp add: read_signed_def dbind_def f_read_small)

lemma read_unsigned_be:
  "n < 256 ^ w \<Longrightarrow> read_unsigned mem w (Stream (be_bytes w n @ r) p) = (Inr n, Stream r (p + w))"
  by (simp add: read_unsigned_def dbind_def f_read_append unpack_unsigned_def be_nat_be_bytes)

lemma read_signed_be:
  "n < 2 ^ (8 * w - 1) \<Longrightarrow> 0 < w \<Longrightarrow>
   read_signed mem w (Stream (be_bytes w n @ r) p) = (Inr (int n), Stream r (p + w))"
proof -
  assume n: "n < 2 ^ (8 * w - 1)" and w: "0 < w"
  have "(2::nat) ^ (8 * w - 1) \<le> 2 ^ (8 * w)" by (rule power_increasing) simp_all
  also have "\<dots> = 256 ^ w" by (simp add: power_mult)
  finally have "n < 256 ^ w" using n by simp
  then have "be_nat (be_bytes w n) = n" by (simp add: be_nat_be_bytes)
  moreover have "int n < 2 ^ (8 * w - 1)" using n
    by (metis of_nat_less_iff of_nat_numeral of_nat_power)
  ultimately show ?thesis
    by (simp add: read_signed_def dbind_def f_read_append unpack_signed_def)
qed

lemma read_byte_Cons: "read_byte mem (Stream (b # r) p) = (Inr (unat b), Stream r (p + 1))"
  by (simp add: read_byte_def dbind_def f_read_small)

lemma read_byte_eof: "read_byte mem (Stream [] p) = (Inl IndexError, Stream [] p)"
  by (simp add: read_byte_def dbind_def f_read_small)

lemma length_MAGIC_BYTE: "length MAGIC_BYTE = 20"
  by (simp add: MAGIC_BYTE_def bytes_of_def)

lemma check_magic_ok: "check_magic mem (Stream (MAGIC_BYTE @ r) p) = (Inr (), Stream r (p + 20))"
  by (simp add: check_magic_def dbind_def length_MAGIC_BYTE f_read_append)

lemma utf8_decode_ignore_Nil [simp]: "utf8_decode_ignore [] = []"
  by (simp add: utf8_decode_ignore.simps)

lemma utf8_decode_ignore_ascii:
  "b < 0x80 \<Longrightarrow> utf8_decode_ignore (b # bs) = unat b # utf8_decode_ignore bs"
  by (subst utf8_decode_ignore.simps) simp

lemma ascii_byte:
  assumes "(of_char c :: nat) < 128"
  shows "(of_nat (of_char c) :: byte) < 0x80" and "unat (of_nat (of_char c) :: byte) = of_char c"
proof -
  from assms show u: "unat (of_nat (of_char c) :: byte) = of_char c"
    by (simp add: unat_of_nat)
  have "unat (of_nat (of_char c) :: byte) < unat (0x80 :: byte)" using assms u by simp
  then show "(of_nat (of_char c) :: byte) < 0x80" by (simp only: word_less_nat_alt)
qed

lemma utf8_decode_ignore_bytes_of:
  "ascii cs \<Longrightarrow> utf8_decode_ignore (bytes_of cs) = str_of cs"
proof (induction cs)
  case Nil
  show ?case by (simp add: bytes_of_def str_of_def)
next
  case (Cons c cs)
  then have c: "(of_char c :: nat) < 128" and cs: "ascii cs" by (simp_all add: ascii_def)
  have "utf8_decode_ignore (bytes_of (c # cs)) =
          unat (of_nat (of_char c) :: byte) # utf8_decode_ignore (bytes_of cs)"
    using ascii_byte(1) [OF c] by (simp add: bytes_of_def utf8_decode_ignore_ascii)
  then show ?case using Cons.IH [OF cs] ascii_byte(2) [OF c] by (simp add: str_of_def)
qed

lemma length_bytes_of [simp]: "length (bytes_of cs) = length cs"
  by (simp add: bytes_of_def)

lemma read_utf8_string_encode:
  "ascii cs \<Longrightarrow>
   read_utf8_string mem (Stream (encode_string cs @ r) p) =
     (Inr (str_of cs), Stream r (p + length (encode_string cs)))"
proof (cases "cs = []")
  case True
  then show ?thesis
    using read_variable_byte_encode [of 0 r p]
    by (simp add: read_utf8_string_def encode_string_def bytes_of_def str_of_def)
next
  case False
  assume "ascii cs"
  then show ?thesis using False
    by (simp add: read_utf8_string_def encode_string_def read_variable_byte_encode
        f_read_append utf8_decode_ignore_bytes_of)
qed

subsection \<open>Length-prefixed strings\<close>



lemma loop_some:
  "read_variable_byte_loop (Stream bs p) acc s = (Some n, f') \<Longrightarrow> \<exists>b\<in>set bs. b AND 0x80 = 0"
  by (induction bs arbitrary: p acc s) (auto simp: Let_def split: if_splits)

text \<open>
  C7: on a stream whose next byte is \<open>0x00\<close> (the varint 0), \<^verbatim>\<open>read_utf8_string\<close>
  returns the empty string, and the stream it leaves is the one after that single byte:
  the cursor has moved by exactly one.
\<close>

theorem read_utf8_string_zero_length:
  "read_utf8_string mem (Stream (0x00 # bs) p) = (Inr [], Stream bs (p + 1))"
  by (simp add: read_utf8_string_def read_variable_byte_def)


text \<open>
  A length the interpreter of the examples cannot allocate: the varint of \<open>2 ^ 40\<close>
  before a payload of two bytes.
\<close>

lemma short_payload_memory_error:
  "read_utf8_string sample_mem (Stream [0x80, 0x80, 0x80, 0x80, 0x80, 0x20, 0x41, 0x42] 0) =
     (Inl MemoryError, Stream [0x41, 0x42] 6)"
  by (simp add: read_utf8_string_def read_variable_byte_def f_read.simps sample_mem_def
      DEFAULT_BUFFER_SIZE_def)




subsection \<open>The magic marker and failed calls\<close>

lemma check_magic_mismatch:
  "take 20 content \<noteq> MAGIC_BYTE \<Longrightarrow>
   check_magic mem (Stream content p) =
     (Inl InvalidMagic, Stream (drop 20 content) (p + min 20 (length content)))"
  by (simp add: check_magic_def dbind_def length_MAGIC_BYTE f_read_small min_def)

text \<open>
  C5: when the first 20 bytes of the file differ from the marker (a file shorter than 20
  bytes included) the decode fails with \<open>InvalidMagic\<close> right after the marker read:
  the cursor is at \<open>min 20 (length content)\<close>, so at most 20, nothing after it has been
  read, and \<^verbatim>\<open>extract_tags\<close> returns \<^verbatim>\<open>False\<close>.
\<close>

theorem invalid_magic_stops:
  assumes "take 20 content \<noteq> MAGIC_BYTE"
  shows "decode mem (open_file content) =
           (Inl InvalidMagic, Stream (drop 20 content) (min 20 (length content)))
         \<and> pos (snd (decode mem (open_file content))) \<le> 20
         \<and> extract_tags mem self content = (False, self)"
  using assms
  by (simp add: decode_def dbind_def open_file_def check_magic_mismatch extract_tags_def)

theorem invalid_magic_stops_witness:
  "take 20 (bytes_of ''mapsforge binary OSX'' @ [0, 0, 0, 5]) \<noteq> MAGIC_BYTE
   \<and> decode sample_mem (open_file (bytes_of ''mapsforge binary OSX'' @ [0, 0, 0, 5])) =
       (Inl InvalidMagic, Stream [0, 0, 0, 5] 20)"
  using invalid_magic_stops
    [where content = "bytes_of ''mapsforge binary OSX'' @ [0, 0, 0, 5]" and mem = sample_mem]
  by (simp add: MAGIC_BYTE_def bytes_of_def)

text \<open>
  C9: when \<^verbatim>\<open>extract_tags\<close> returns \<^verbatim>\<open>False\<close>, the reader is the one it was called
  on: \<^verbatim>\<open>self.tags\<close> keeps its value, which for a fresh reader is the initial empty one.
\<close>

theorem failed_decode_keeps_tags:
  "fst (extract_tags mem self content) = False \<Longrightarrow>
   snd (extract_tags mem self content) = self
   \<and> tags (snd (extract_tags mem self content)) = tags self
   \<and> (self = new_reader path \<longrightarrow> tags (snd (extract_tags mem self content)) = None)"
  by (auto simp: extract_tags_def new_reader_def split: prod.splits sum.splits)

theorem failed_decode_keeps_tags_witness:
  "fst (extract_tags sample_mem (new_reader ''a.map'') (MAGIC_BYTE @ [0, 0])) = False
   \<and> tags (snd (extract_tags sample_mem (new_reader ''a.map'') (MAGIC_BYTE @ [0, 0]))) = None"
proof -
  have d: "decode sample_mem (open_file (MAGIC_BYTE @ [0, 0])) = (Inl StructError, Stream [] 22)"
    by (simp add: decode_def dbind_def open_file_def check_magic_def length_MAGIC_BYTE
        read_fixed_header_def read_unsigned_def unpack_unsigned_def f_read_small)
  then have h: "fst (extract_tags sample_mem (new_reader ''a.map'') (MAGIC_BYTE @ [0, 0])) = False"
    by (simp add: extract_tags_def)
  from failed_decode_keeps_tags [OF h] h show ?thesis
    by (simp add: new_reader_def)
qed

subsection \<open>The round-trip scenario\<close>

lemma dbind_Inr: "m f = (Inr x, f') \<Longrightarrow> dbind m k f = k x f'"
  by (simp add: dbind_def)

lemma dbind_Inl: "m f = (Inl e, f') \<Longrightarrow> dbind m k f = (Inl e, f')"
  by (simp add: dbind_def)

lemma read_tags_numeral:
  "read_tags mem (numeral k) ts =
     dbind (read_utf8_string mem) (\<lambda>tag. read_tags mem (pred_numeral k) (ts @ [tag]))"
  by (simp add: numeral_eq_Suc)

lemma read_zoom_intervals_numeral:
  "read_zoom_intervals mem (numeral k) zs =
     dbind (read_zoom_interval mem) (\<lambda>z. read_zoom_intervals mem (pred_numeral k) (zs @ [z]))"
  by (simp add: numeral_eq_Suc)

lemma length_encode_string:
  "length cs < 128 \<Longrightarrow> length (encode_string cs) = Suc (length cs)"
  by (simp add: encode_string_def encode_varint.simps [of "length cs"])

lemma sample_prefix_header:
  "dbind (check_magic mem) (\<lambda>_. read_fixed_header mem) (open_file (sample_prefix @ b # r)) =
     (Inr \<lparr>header_size = 0, file_version = 5, file_size = 100, date_created = 0,
           min_lat = 1000000, min_lon = 2000000, max_lat = 3000000, max_lon = 4000000,
           tile_size = 256, projection = str_of ''EPSG:3857'', flags = unat b\<rparr>,
      Stream r 73)"
  by (simp add: sample_prefix_def open_file_def read_fixed_header_def dbind_def dreturn_def
      check_magic_ok read_unsigned_be read_signed_be read_utf8_string_encode read_byte_Cons ascii_def
      length_encode_string)

lemma sample_header:
  "dbind (check_magic mem) (\<lambda>_. read_fixed_header mem) (open_file sample_buffer) =
     (Inr \<lparr>header_size = 0, file_version = 5, file_size = 100, date_created = 0,
           min_lat = 1000000, min_lon = 2000000, max_lat = 3000000, max_lon = 4000000,
           tile_size = 256, projection = str_of ''EPSG:3857'', flags = 0\<rparr>,
      Stream (be_bytes 2 2 @ encode_string ''amenity=restaurant'' @ encode_string ''shop=bakery''
     @ be_bytes 2 1 @ encode_string ''highway=primary''
     @ [1] @ [14, 8, 17] @ be_bytes 8 1000 @ be_bytes 8 5000) 73)"
  using sample_prefix_header [where b = 0] by (simp add: sample_buffer_def)

lemma read_unsigned_be_end:
  "n < 256 ^ w \<Longrightarrow> read_unsigned mem w (Stream (be_bytes w n) p) = (Inr n, Stream [] (p + w))"
  using read_unsigned_be [where r = "[]"] by simp

lemma sample_tables:
  "read_tables mem (Stream (be_bytes 2 2 @ encode_string ''amenity=restaurant''
       @ encode_string ''shop=bakery'' @ be_bytes 2 1 @ encode_string ''highway=primary''
       @ [1] @ [14, 8, 17] @ be_bytes 8 1000 @ be_bytes 8 5000) 73) =
     (Inr \<lparr>poi_tags = [str_of ''amenity=restaurant'', str_of ''shop=bakery''],
           way_tags = [str_of ''highway=primary''],
           zoom_intervals = [\<lparr>base_zoom = 14, min_zoom = 8, max_zoom = 17,
                              subfile_start = 1000, subfile_size = 5000\<rparr>],
           num_poi_tags = 2, num_way_tags = 1, num_zoom_intervals = 1\<rparr>,
      Stream [] 144)"
  by (simp add: read_tables_def read_zoom_interval_def dbind_def dreturn_def
      read_unsigned_be read_unsigned_be_end read_utf8_string_encode read_byte_Cons ascii_def
      length_encode_string read_tags_numeral)

lemma decode_stages:
  "decode mem f =
     (case dbind (check_magic mem) (\<lambda>_. read_fixed_header mem) f of
        (Inl e, f') \<Rightarrow> (Inl e, f')
      | (Inr h, f') \<Rightarrow> dbind (read_optional_fields mem (flags h)) (\<lambda>_. read_tables mem) f')"
  by (simp add: decode_def dbind_def split: prod.splits sum.splits)

lemma read_optional_fields_none:
  "read_optional_fields mem 0 f =
     (Inr \<lparr>start_position = None, start_zoom = None, language = None, comment = None,
           created_by = None\<rparr>, f)"
  by (simp add: read_optional_fields_def dbind_def dreturn_def
      has_map_start_position_def has_start_zoom_def has_language_preference_def
      has_comment_def has_created_by_def)

lemma dbind_no_optional_fields:
  "dbind (read_optional_fields mem 0) k f =
     k \<lparr>start_position = None, start_zoom = None, language = None, comment = None,
         created_by = None\<rparr> f"
  by (simp add: dbind_def read_optional_fields_none)

lemma sample_decode:
  "decode mem (open_file sample_buffer) =
     (Inr \<lparr>poi_tags = [str_of ''amenity=restaurant'', str_of ''shop=bakery''],
           way_tags = [str_of ''highway=primary''],
           zoom_intervals = [\<lparr>base_zoom = 14, min_zoom = 8, max_zoom = 17,
                              subfile_start = 1000, subfile_size = 5000\<rparr>],
           num_poi_tags = 2, num_way_tags = 1, num_zoom_intervals = 1\<rparr>,
      Stream [] 144)"
  using sample_tables by (simp add: decode_stages sample_header dbind_no_optional_fields)

text \<open>
  C3: decoding the synthetic buffer (magic marker, header size 0, version 5, file size 100,
  timestamp 0, bounding box 1.0, 2.0, 3.0, 4.0 scaled by 1,000,000, tile size 256,
  projection \<^verbatim>\<open>EPSG:3857\<close>, flags \<open>0x00\<close>, two POI tags, one way tag, one zoom interval)
  succeeds and stores exactly those tags and that interval, in that order.
\<close>

theorem sample_roundtrip:
  "extract_tags mem (new_reader path) sample_buffer =
     (True,
      \<lparr>filepath = path,
       tags = Some \<lparr>poi_tags = [str_of ''amenity=restaurant'', str_of ''shop=bakery''],
                    way_tags = [str_of ''highway=primary''],
                    zoom_intervals = [\<lparr>base_zoom = 14, min_zoom = 8, max_zoom = 17,
                                       subfile_start = 1000, subfile_size = 5000\<rparr>]\<rparr>\<rparr>)"
  by (simp add: extract_tags_def sample_decode new_reader_def map_file_tags.truncate_def)

subsection \<open>Truncated files\<close>

lemma read_unsigned_eof:
  "0 < w \<Longrightarrow> w \<le> 8192 \<Longrightarrow>
   read_unsigned mem w (Stream [] p) = (Inl StructError, Stream [] p)"
  by (simp add: read_unsigned_small unpack_unsigned_def)

lemma read_signed_eof:
  "0 < w \<Longrightarrow> w \<le> 8192 \<Longrightarrow>
   read_signed mem w (Stream [] p) = (Inl StructError, Stream [] p)"
  by (simp add: read_signed_small unpack_signed_def)

lemma read_utf8_string_eof: "read_utf8_string mem (Stream [] p) = (Inr [], Stream [] p)"
  by (simp add: read_utf8_string_def read_variable_byte_def)

lemma read_tables_eof: "read_tables mem (Stream [] p) = (Inl StructError, Stream [] p)"
  by (simp add: read_tables_def dbind_def read_unsigned_eof)

lemma optional_then_tables_eof:
  "dbind (read_optional_fields mem fl) (\<lambda>_. read_tables mem) (Stream [] p) =
     (Inl (if \<not> has_map_start_position fl \<and> has_start_zoom fl then IndexError
           else StructError), Stream [] p)"
  by (simp add: read_optional_fields_def dbind_def dreturn_def read_signed_eof read_byte_eof
      read_utf8_string_eof read_tables_eof)

text \<open>
  C6: a file that decodes without error up to and including the flags byte, ends right
  after it, and has at least one optional-field bit set (\<open>0x40\<close>, \<open>0x20\<close>, \<open>0x10\<close>,
  \<open>0x08\<close>, \<open>0x04\<close>) fails with a truncation error and returns no result. The error is
  the \<^verbatim>\<open>struct.error\<close> of the start position read, the \<^verbatim>\<open>IndexError\<close> of the start
  zoom read when that is the first optional field, and otherwise (only string fields
  flagged, which read as empty at end of file) the \<^verbatim>\<open>struct.error\<close> of the POI count.
\<close>

theorem truncated_after_flags:
  assumes "dbind (check_magic mem) (\<lambda>_. read_fixed_header mem) (open_file content) = (Inr h, f)"
    and "rest f = []"
    and "has_map_start_position (flags h) \<or> has_start_zoom (flags h)
         \<or> has_language_preference (flags h) \<or> has_comment (flags h)
         \<or> has_created_by (flags h)"
  shows "(\<exists>e. decode mem (open_file content) = (Inl e, f) \<and> truncated_input e
            \<and> e = (if \<not> has_map_start_position (flags h) \<and> has_start_zoom (flags h)
                    then IndexError else StructError))
         \<and> extract_tags mem self content = (False, self)"
proof -
  obtain p where f: "f = Stream [] p" using assms(2) by (cases f) simp
  have "decode mem (open_file content) =
          (Inl (if \<not> has_map_start_position (flags h) \<and> has_start_zoom (flags h)
                then IndexError else StructError), f)"
    by (simp add: decode_stages assms(1) f optional_then_tables_eof)
  then show ?thesis by (simp add: extract_tags_def truncated_input_def)
qed

theorem truncated_after_flags_witness:
  "dbind (check_magic sample_mem) (\<lambda>_. read_fixed_header sample_mem) (open_file (sample_prefix @ [0x10])) =
     (Inr \<lparr>header_size = 0, file_version = 5, file_size = 100, date_created = 0,
           min_lat = 1000000, min_lon = 2000000, max_lat = 3000000, max_lon = 4000000,
           tile_size = 256, projection = str_of ''EPSG:3857'', flags = 16\<rparr>, Stream [] 73)
   \<and> has_language_preference 16
   \<and> decode sample_mem (open_file (sample_prefix @ [0x10])) = (Inl StructError, Stream [] 73)
   \<and> extract_tags sample_mem (new_reader ''a.map'') (sample_prefix @ [0x10]) = (False, new_reader ''a.map'')"
proof -
  have h: "dbind (check_magic sample_mem) (\<lambda>_. read_fixed_header sample_mem) (open_file (sample_prefix @ [0x10])) =
     (Inr \<lparr>header_size = 0, file_version = 5, file_size = 100, date_created = 0,
           min_lat = 1000000, min_lon = 2000000, max_lat = 3000000, max_lon = 4000000,
           tile_size = 256, projection = str_of ''EPSG:3857'', flags = 16\<rparr>, Stream [] 73)"
    using sample_prefix_header [where b = "0x10" and r = "[]" and mem = sample_mem] by simp
  have l: "has_language_preference 16" by (simp add: has_language_preference_def)
  have m: "\<not> has_map_start_position 16" by (simp add: has_map_start_position_def)
  have z: "\<not> has_start_zoom 16" by (simp add: has_start_zoom_def)
  from truncated_after_flags [where self = "new_reader ''a.map''", OF h] l m z h show ?thesis
    by auto
qed

lemma loop_Some_form:
  "read_variable_byte_loop (Stream e p) acc s = (Some n, f') \<Longrightarrow>
   \<exists>k. 0 < k \<and> k \<le> length e \<and> f' = Stream (drop k e) (p + k) \<and>
       (\<forall>tl0 p'. read_variable_byte_loop (Stream (e @ tl0) p') acc s =
                    (Some n, Stream (drop k e @ tl0) (p' + k)))"
proof (induction e arbitrary: p acc s)
  case Nil
  then show ?case by simp
next
  case (Cons b bs)
  show ?case
  proof (cases "b AND 0x80 = 0")
    case True
    with Cons.prems show ?thesis
      by (intro exI [of _ 1]) (auto simp: Let_def)
  next
    case False
    with Cons.prems have
      "read_variable_byte_loop (Stream bs (p + 1)) (acc OR push_bit s (unat (b AND 0x7F))) (s + 7)
         = (Some n, f')"
      by (simp add: Let_def)
    from Cons.IH [OF this] obtain k where k: "0 < k" "k \<le> length bs"
      "f' = Stream (drop k bs) (p + 1 + k)"
      "\<forall>tl0 p'. read_variable_byte_loop (Stream (bs @ tl0) p')
           (acc OR push_bit s (unat (b AND 0x7F))) (s + 7) =
         (Some n, Stream (drop k bs @ tl0) (p' + k))"
      by blast
    show ?thesis
      using False k by (intro exI [of _ "Suc k"]) (simp add: Let_def)
  qed
qed

lemma read_utf8_string_entry:
  assumes "string_entry e"
  shows "\<exists>s. read_utf8_string mem (Stream (e @ sfx) p) = (Inr s, Stream sfx (p + length e))"
proof -
  from assms obtain n f' where r: "read_variable_byte (Stream e 0) = (Some n, f')"
    and len: "length (rest f') = n"
    by (auto simp: string_entry_def split: prod.splits option.splits)
  from r obtain k where k: "0 < k" "k \<le> length e" "f' = Stream (drop k e) (0 + k)"
    and app: "\<forall>sfx p'. read_variable_byte_loop (Stream (e @ sfx) p') 0 0 =
                    (Some n, Stream (drop k e @ sfx) (p' + k))"
    unfolding read_variable_byte_def using loop_Some_form [of e 0 0 0 n f'] by blast
  from k len have n: "n = length e - k" by simp
  have rv: "read_variable_byte (Stream (e @ sfx) p) = (Some n, Stream (drop k e @ sfx) (p + k))"
    using app by (simp add: read_variable_byte_def)
  show ?thesis
    using k n by (simp add: read_utf8_string_def rv f_read_append)
qed

lemma read_tags_three_of_two:
  assumes "string_entry e1" "string_entry e2"
  shows "\<exists>ts. read_tags mem 3 [] (Stream (e1 @ e2) p) =
                (Inr ts, Stream [] (p + length e1 + length e2))
              \<and> length ts = 3 \<and> ts ! 2 = []"
proof -
  from read_utf8_string_entry [where sfx = e2 and p = p and mem = mem, OF assms(1)]
  obtain s1 where
    s1: "read_utf8_string mem (Stream (e1 @ e2) p) = (Inr s1, Stream e2 (p + length e1))"
    by blast
  from read_utf8_string_entry [where sfx = "[]" and p = "p + length e1" and mem = mem, OF assms(2)]
  obtain s2 where
    s2: "read_utf8_string mem (Stream e2 (p + length e1)) =
           (Inr s2, Stream [] (p + length e1 + length e2))"
    by auto
  show ?thesis
    by (simp add: read_tags_numeral dbind_def dreturn_def s1 s2 read_utf8_string_eof)
qed

lemma decode_after_optional:
  "dbind (check_magic mem) (\<lambda>_. read_fixed_header mem) f = (Inr h, f1) \<Longrightarrow>
   read_optional_fields mem (flags h) f1 = (Inr opt, f2) \<Longrightarrow> decode mem f = read_tables mem f2"
  by (simp add: decode_stages dbind_def)

text \<open>
  C1: a file whose header and optional fields decode, whose POI count is 3, and whose
  stream ends after two complete tag entries fails with a truncation error
  (\<^verbatim>\<open>struct.error\<close>, raised by the way-tag count read at end of file): no sequence of
  tags is returned and \<^verbatim>\<open>self.tags\<close> is not assigned.
\<close>

theorem missing_tag_entry_fails:
  assumes "dbind (check_magic mem) (\<lambda>_. read_fixed_header mem) (open_file content) = (Inr h, f1)"
    and "read_optional_fields mem (flags h) f1 = (Inr opt, f2)"
    and "rest f2 = [0x00, 0x03] @ e1 @ e2"
    and "string_entry e1" and "string_entry e2"
  shows "decode mem (open_file content) =
           (Inl StructError, Stream [] (pos f2 + 2 + length e1 + length e2))
         \<and> truncated_input StructError
         \<and> extract_tags mem self content = (False, self)"
proof -
  obtain p where f2: "f2 = Stream (0x00 # 0x03 # e1 @ e2) p" using assms(3) by (cases f2) simp
  have cnt: "read_unsigned mem 2 f2 = (Inr 3, Stream (e1 @ e2) (p + 2))"
    by (simp add: f2 read_unsigned_small unpack_unsigned_def be_nat_def)
  from read_tags_three_of_two [where p = "p + 2" and mem = mem, OF assms(4,5)] obtain ts where
    ts: "read_tags mem 3 [] (Stream (e1 @ e2) (p + 2)) =
           (Inr ts, Stream [] (p + 2 + length e1 + length e2))"
    by blast
  have "read_tables mem f2 = (Inl StructError, Stream [] (p + 2 + length e1 + length e2))"
    using cnt ts by (simp add: read_tables_def dbind_def read_unsigned_eof)
  then have "decode mem (open_file content) =
      (Inl StructError, Stream [] (pos f2 + 2 + length e1 + length e2))"
    by (simp add: decode_after_optional [OF assms(1,2)] f2)
  then show ?thesis by (simp add: extract_tags_def truncated_input_def)
qed

theorem missing_tag_entry_fails_witness:
  "string_entry [0x03, 0x61, 0x3D, 0x62] \<and> string_entry [0x03, 0x63, 0x3D, 0x64]
   \<and> decode sample_mem (open_file (sample_prefix @ [0x00] @ [0x00, 0x03]
          @ [0x03, 0x61, 0x3D, 0x62] @ [0x03, 0x63, 0x3D, 0x64])) =
       (Inl StructError, Stream [] 83)
   \<and> extract_tags sample_mem (new_reader ''a.map'') (sample_prefix @ [0x00] @ [0x00, 0x03]
          @ [0x03, 0x61, 0x3D, 0x62] @ [0x03, 0x63, 0x3D, 0x64]) =
       (False, new_reader ''a.map'')"
proof -
  let ?e1 = "[0x03, 0x61, 0x3D, 0x62] :: byte list"
  let ?e2 = "[0x03, 0x63, 0x3D, 0x64] :: byte list"
  let ?content = "sample_prefix @ [0x00] @ [0x00, 0x03] @ ?e1 @ ?e2"
  let ?f = "Stream ([0x00, 0x03] @ ?e1 @ ?e2) 73"
  have e1: "string_entry ?e1" by (simp add: string_entry_def read_variable_byte_def)
  have e2: "string_entry ?e2" by (simp add: string_entry_def read_variable_byte_def)
  have h: "dbind (check_magic sample_mem) (\<lambda>_. read_fixed_header sample_mem) (open_file ?content) =
     (Inr \<lparr>header_size = 0, file_version = 5, file_size = 100, date_created = 0,
           min_lat = 1000000, min_lon = 2000000, max_lat = 3000000, max_lon = 4000000,
           tile_size = 256, projection = str_of ''EPSG:3857'', flags = 0\<rparr>, ?f)"
    using sample_prefix_header [where b = 0 and r = "[0x00, 0x03] @ ?e1 @ ?e2" and mem = sample_mem] by simp
  have o: "read_optional_fields sample_mem
      (flags \<lparr>header_size = 0, file_version = 5, file_size = 100, date_created = 0,
           min_lat = 1000000, min_lon = 2000000, max_lat = 3000000, max_lon = 4000000,
           tile_size = 256, projection = str_of ''EPSG:3857'', flags = 0\<rparr>) ?f =
     (Inr \<lparr>start_position = None, start_zoom = None, language = None, comment = None,
           created_by = None\<rparr>, ?f)"
    by (simp add: read_optional_fields_none)
  have r: "rest ?f = [0x00, 0x03] @ ?e1 @ ?e2" by simp
  from missing_tag_entry_fails [where self = "new_reader ''a.map''", OF h o r e1 e2] e1 e2
  show ?thesis by simp
qed

subsection \<open>Counts, lengths and order of a successful decode\<close>

lemma dbind_Inr_elim:
  "dbind m k f = (Inr y, f') \<Longrightarrow> \<exists>x f1. m f = (Inr x, f1) \<and> k x f1 = (Inr y, f')"
  by (auto simp: dbind_def split: prod.splits sum.splits)

lemma read_tags_spec:
  "read_tags mem n acc f = (Inr ts, f') \<Longrightarrow>
   length ts = length acc + n \<and> take (length acc) ts = acc \<and>
   f' = (skip_string mem ^^ n) f \<and>
   (\<forall>i<n. fst (read_utf8_string mem ((skip_string mem ^^ i) f)) = Inr (ts ! (length acc + i)))"
proof (induction n arbitrary: acc f)
  case 0
  then show ?case by (simp add: dreturn_def)
next
  case (Suc n)
  from Suc.prems obtain t f1 where t: "read_utf8_string mem f = (Inr t, f1)"
    and r: "read_tags mem n (acc @ [t]) f1 = (Inr ts, f')"
    by (auto dest: dbind_Inr_elim)
  have f1: "f1 = skip_string mem f" using t by (simp add: skip_string_def)
  from Suc.IH [OF r] have ih: "length ts = length acc + Suc n"
    "take (Suc (length acc)) ts = acc @ [t]"
    "f' = (skip_string mem ^^ n) f1"
    "\<forall>i<n. fst (read_utf8_string mem ((skip_string mem ^^ i) f1)) = Inr (ts ! (Suc (length acc) + i))"
    by simp_all
  from ih(2) have tk: "take (length acc) ts = acc" and tt: "ts ! length acc = t"
    by (metis append_eq_conv_conj length_take min.absorb2 take_take le_add2 plus_1_eq_Suc
        butlast_snoc butlast_take diff_Suc_1 ih(1) le_add1,
        metis ih(1) ih(2) less_add_Suc1 nth_append_length nth_take lessI)
  have "\<forall>i<Suc n. fst (read_utf8_string mem ((skip_string mem ^^ i) f)) = Inr (ts ! (length acc + i))"
  proof (intro allI impI)
    fix i assume "i < Suc n"
    show "fst (read_utf8_string mem ((skip_string mem ^^ i) f)) = Inr (ts ! (length acc + i))"
    proof (cases i)
      case 0
      then show ?thesis using t tt by simp
    next
      case (Suc j)
      with \<open>i < Suc n\<close> have "j < n" by simp
      with ih(4) have "fst (read_utf8_string mem ((skip_string mem ^^ j) f1)) = Inr (ts ! (Suc (length acc) + j))"
        by blast
      then show ?thesis by (simp add: Suc f1 funpow_swap1)
    qed
  qed
  with ih(1,3) tk f1 show ?case by (simp add: funpow_swap1)
qed

lemma read_zoom_intervals_spec:
  "read_zoom_intervals mem n acc f = (Inr zs, f') \<Longrightarrow>
   length zs = length acc + n \<and> take (length acc) zs = acc \<and>
   f' = (skip_zoom_interval mem ^^ n) f \<and>
   (\<forall>i<n. fst (read_zoom_interval mem ((skip_zoom_interval mem ^^ i) f)) = Inr (zs ! (length acc + i)))"
proof (induction n arbitrary: acc f)
  case 0
  then show ?case by (simp add: dreturn_def)
next
  case (Suc n)
  from Suc.prems obtain z f1 where z: "read_zoom_interval mem f = (Inr z, f1)"
    and r: "read_zoom_intervals mem n (acc @ [z]) f1 = (Inr zs, f')"
    by (auto dest: dbind_Inr_elim)
  have f1: "f1 = skip_zoom_interval mem f" using z by (simp add: skip_zoom_interval_def)
  from Suc.IH [OF r] have ih: "length zs = length acc + Suc n"
    "take (Suc (length acc)) zs = acc @ [z]"
    "f' = (skip_zoom_interval mem ^^ n) f1"
    "\<forall>i<n. fst (read_zoom_interval mem ((skip_zoom_interval mem ^^ i) f1)) = Inr (zs ! (Suc (length acc) + i))"
    by simp_all
  from ih(2) have t: "take (length acc) zs = acc" and zz: "zs ! length acc = z"
    by (metis append_eq_conv_conj length_take min.absorb2 take_take le_add2 plus_1_eq_Suc
        butlast_snoc butlast_take diff_Suc_1 ih(1) le_add1,
        metis ih(1) ih(2) less_add_Suc1 nth_append_length nth_take lessI)
  have "\<forall>i<Suc n. fst (read_zoom_interval mem ((skip_zoom_interval mem ^^ i) f)) = Inr (zs ! (length acc + i))"
  proof (intro allI impI)
    fix i assume "i < Suc n"
    show "fst (read_zoom_interval mem ((skip_zoom_interval mem ^^ i) f)) = Inr (zs ! (length acc + i))"
    proof (cases i)
      case 0
      then show ?thesis using z zz by simp
    next
      case (Suc j)
      with \<open>i < Suc n\<close> have "j < n" by simp
      with ih(4) have "fst (read_zoom_interval mem ((skip_zoom_interval mem ^^ j) f1)) = Inr (zs ! (Suc (length acc) + j))"
        by blast
      then show ?thesis by (simp add: Suc f1 funpow_swap1)
    qed
  qed
  with ih(1,3) t f1 show ?case by (simp add: funpow_swap1)
qed

lemma read_tables_Inr:
  assumes "read_tables mem f = (Inr d, f')"
  shows "\<exists>f_poi f_way f_zoom.
      read_unsigned mem 2 f = (Inr (num_poi_tags d), f_poi)
    \<and> length (poi_tags d) = num_poi_tags d
    \<and> (\<forall>i<num_poi_tags d.
          fst (read_utf8_string mem ((skip_string mem ^^ i) f_poi)) = Inr (poi_tags d ! i))
    \<and> read_unsigned mem 2 ((skip_string mem ^^ num_poi_tags d) f_poi) = (Inr (num_way_tags d), f_way)
    \<and> length (way_tags d) = num_way_tags d
    \<and> (\<forall>i<num_way_tags d.
          fst (read_utf8_string mem ((skip_string mem ^^ i) f_way)) = Inr (way_tags d ! i))
    \<and> read_byte mem ((skip_string mem ^^ num_way_tags d) f_way) = (Inr (num_zoom_intervals d), f_zoom)
    \<and> length (zoom_intervals d) = num_zoom_intervals d
    \<and> (\<forall>i<num_zoom_intervals d.
          fst (read_zoom_interval mem ((skip_zoom_interval mem ^^ i) f_zoom)) = Inr (zoom_intervals d ! i))"
proof -
  from assms obtain np f_poi where np: "read_unsigned mem 2 f = (Inr np, f_poi)"
    and r1: "dbind (read_tags mem np []) (\<lambda>poi_tags.
     dbind (read_unsigned mem 2) (\<lambda>num_way_tags.
     dbind (read_tags mem num_way_tags []) (\<lambda>way_tags.
     dbind (read_byte mem) (\<lambda>num_zoom_intervals.
     dbind (read_zoom_intervals mem num_zoom_intervals []) (\<lambda>zoom_intervals.
     dreturn \<lparr>poi_tags = poi_tags, way_tags = way_tags, zoom_intervals = zoom_intervals,
              num_poi_tags = np, num_way_tags = num_way_tags,
              num_zoom_intervals = num_zoom_intervals\<rparr>))))) f_poi = (Inr d, f')"
    unfolding read_tables_def by (blast dest: dbind_Inr_elim)
  from dbind_Inr_elim [OF r1] obtain ps f_a where
    ps: "read_tags mem np [] f_poi = (Inr ps, f_a)"
    and r2: "dbind (read_unsigned mem 2) (\<lambda>num_way_tags.
     dbind (read_tags mem num_way_tags []) (\<lambda>way_tags.
     dbind (read_byte mem) (\<lambda>num_zoom_intervals.
     dbind (read_zoom_intervals mem num_zoom_intervals []) (\<lambda>zoom_intervals.
     dreturn \<lparr>poi_tags = ps, way_tags = way_tags, zoom_intervals = zoom_intervals,
              num_poi_tags = np, num_way_tags = num_way_tags,
              num_zoom_intervals = num_zoom_intervals\<rparr>)))) f_a = (Inr d, f')"
    by blast
  from read_tags_spec [OF ps] have p: "length ps = np" "f_a = (skip_string mem ^^ np) f_poi"
    "\<forall>i<np. fst (read_utf8_string mem ((skip_string mem ^^ i) f_poi)) = Inr (ps ! i)"
    by simp_all
  from dbind_Inr_elim [OF r2] obtain nw f_way where
    nw: "read_unsigned mem 2 f_a = (Inr nw, f_way)"
    and r3: "dbind (read_tags mem nw []) (\<lambda>way_tags.
     dbind (read_byte mem) (\<lambda>num_zoom_intervals.
     dbind (read_zoom_intervals mem num_zoom_intervals []) (\<lambda>zoom_intervals.
     dreturn \<lparr>poi_tags = ps, way_tags = way_tags, zoom_intervals = zoom_intervals,
              num_poi_tags = np, num_way_tags = nw,
              num_zoom_intervals = num_zoom_intervals\<rparr>))) f_way = (Inr d, f')"
    by blast
  from dbind_Inr_elim [OF r3] obtain ws f_b where
    ws: "read_tags mem nw [] f_way = (Inr ws, f_b)"
    and r4: "dbind (read_byte mem) (\<lambda>num_zoom_intervals.
     dbind (read_zoom_intervals mem num_zoom_intervals []) (\<lambda>zoom_intervals.
     dreturn \<lparr>poi_tags = ps, way_tags = ws, zoom_intervals = zoom_intervals,
              num_poi_tags = np, num_way_tags = nw,
              num_zoom_intervals = num_zoom_intervals\<rparr>)) f_b = (Inr d, f')"
    by blast
  from read_tags_spec [OF ws] have w: "length ws = nw" "f_b = (skip_string mem ^^ nw) f_way"
    "\<forall>i<nw. fst (read_utf8_string mem ((skip_string mem ^^ i) f_way)) = Inr (ws ! i)"
    by simp_all
  from dbind_Inr_elim [OF r4] obtain nz f_zoom where
    nz: "read_byte mem f_b = (Inr nz, f_zoom)"
    and r5: "dbind (read_zoom_intervals mem nz []) (\<lambda>zoom_intervals.
     dreturn \<lparr>poi_tags = ps, way_tags = ws, zoom_intervals = zoom_intervals,
              num_poi_tags = np, num_way_tags = nw,
              num_zoom_intervals = nz\<rparr>) f_zoom = (Inr d, f')"
    by blast
  from dbind_Inr_elim [OF r5] obtain zs f_end where
    zs: "read_zoom_intervals mem nz [] f_zoom = (Inr zs, f_end)"
    and d: "d = \<lparr>poi_tags = ps, way_tags = ws, zoom_intervals = zs,
              num_poi_tags = np, num_way_tags = nw, num_zoom_intervals = nz\<rparr>"
    by (auto simp: dreturn_def)
  from read_zoom_intervals_spec [OF zs] have z: "length zs = nz"
    "\<forall>i<nz. fst (read_zoom_interval mem ((skip_zoom_interval mem ^^ i) f_zoom)) = Inr (zs ! i)"
    by simp_all
  show ?thesis
    using np nw nz p w z
    by (intro exI [of _ f_poi] exI [of _ f_way] exI [of _ f_zoom]) (simp add: d)
qed

lemma decode_Inr:
  "decode mem f = (Inr d, f') \<Longrightarrow>
   \<exists>h f1 opt f2. dbind (check_magic mem) (\<lambda>_. read_fixed_header mem) f = (Inr h, f1)
     \<and> read_optional_fields mem (flags h) f1 = (Inr opt, f2) \<and> read_tables mem f2 = (Inr d, f')"
  by (auto simp: decode_stages split: prod.splits sum.splits dest: dbind_Inr_elim)

text \<open>
  C8: when the decode succeeds, the header and the optional fields were read, the three
  counts of the result are the ones read from the stream at the start of each table, each
  sequence has exactly as many entries as its count, and entry \<open>i\<close> of each sequence is
  what the \<open>i\<close>-th read of that table returned: the order of reading is the order of the
  sequence. \<^verbatim>\<open>extract_tags\<close> stores these three sequences in \<^verbatim>\<open>self.tags\<close>.
\<close>

theorem decoded_lengths_and_order:
  assumes "decode mem (open_file content) = (Inr d, f_end)"
  shows "(\<exists>h f1 opt f2 f_poi f_way f_zoom.
        dbind (check_magic mem) (\<lambda>_. read_fixed_header mem) (open_file content) = (Inr h, f1)
      \<and> read_optional_fields mem (flags h) f1 = (Inr opt, f2)
      \<and> read_unsigned mem 2 f2 = (Inr (num_poi_tags d), f_poi)
      \<and> length (poi_tags d) = num_poi_tags d
      \<and> (\<forall>i<num_poi_tags d.
            fst (read_utf8_string mem ((skip_string mem ^^ i) f_poi)) = Inr (poi_tags d ! i))
      \<and> read_unsigned mem 2 ((skip_string mem ^^ num_poi_tags d) f_poi) = (Inr (num_way_tags d), f_way)
      \<and> length (way_tags d) = num_way_tags d
      \<and> (\<forall>i<num_way_tags d.
            fst (read_utf8_string mem ((skip_string mem ^^ i) f_way)) = Inr (way_tags d ! i))
      \<and> read_byte mem ((skip_string mem ^^ num_way_tags d) f_way) = (Inr (num_zoom_intervals d), f_zoom)
      \<and> length (zoom_intervals d) = num_zoom_intervals d
      \<and> (\<forall>i<num_zoom_intervals d.
            fst (read_zoom_interval mem ((skip_zoom_interval mem ^^ i) f_zoom)) =
              Inr (zoom_intervals d ! i)))
   \<and> extract_tags mem self content =
       (True, self\<lparr>tags := Some \<lparr>poi_tags = poi_tags d, way_tags = way_tags d,
                                  zoom_intervals = zoom_intervals d\<rparr>\<rparr>)"
proof -
  from decode_Inr [OF assms] obtain h f1 opt f2 where
    s: "dbind (check_magic mem) (\<lambda>_. read_fixed_header mem) (open_file content) = (Inr h, f1)"
       "read_optional_fields mem (flags h) f1 = (Inr opt, f2)" "read_tables mem f2 = (Inr d, f_end)"
    by blast
  from read_tables_Inr [OF s(3)] s(1,2) have "\<exists>h f1 opt f2 f_poi f_way f_zoom.
        dbind (check_magic mem) (\<lambda>_. read_fixed_header mem) (open_file content) = (Inr h, f1)
      \<and> read_optional_fields mem (flags h) f1 = (Inr opt, f2)
      \<and> read_unsigned mem 2 f2 = (Inr (num_poi_tags d), f_poi)
      \<and> length (poi_tags d) = num_poi_tags d
      \<and> (\<forall>i<num_poi_tags d.
            fst (read_utf8_string mem ((skip_string mem ^^ i) f_poi)) = Inr (poi_tags d ! i))
      \<and> read_unsigned mem 2 ((skip_string mem ^^ num_poi_tags d) f_poi) = (Inr (num_way_tags d), f_way)
      \<and> length (way_tags d) = num_way_tags d
      \<and> (\<forall>i<num_way_tags d.
            fst (read_utf8_string mem ((skip_string mem ^^ i) f_way)) = Inr (way_tags d ! i))
      \<and> read_byte mem ((skip_string mem ^^ num_way_tags d) f_way) = (Inr (num_zoom_intervals d), f_zoom)
      \<and> length (zoom_intervals d) = num_zoom_intervals d
      \<and> (\<forall>i<num_zoom_intervals d.
            fst (read_zoom_interval mem ((skip_zoom_interval mem ^^ i) f_zoom)) =
              Inr (zoom_intervals d ! i))"
    by blast
  moreover have "extract_tags mem self content =
       (True, self\<lparr>tags := Some \<lparr>poi_tags = poi_tags d, way_tags = way_tags d,
                                  zoom_intervals = zoom_intervals d\<rparr>\<rparr>)"
    by (simp add: extract_tags_def assms map_file_tags.truncate_def)
  ultimately show ?thesis by blast
qed

theorem decoded_lengths_and_order_witness:
  "decode sample_mem (open_file sample_buffer) = (Inr sample_decoded, Stream [] 144)
   \<and> (\<exists>h f1 opt f2 f_poi f_way f_zoom.
        dbind (check_magic sample_mem) (\<lambda>_. read_fixed_header sample_mem) (open_file sample_buffer) = (Inr h, f1)
      \<and> read_optional_fields sample_mem (flags h) f1 = (Inr opt, f2)
      \<and> read_unsigned sample_mem 2 f2 = (Inr (num_poi_tags sample_decoded), f_poi)
      \<and> length (poi_tags sample_decoded) = num_poi_tags sample_decoded
      \<and> (\<forall>i<num_poi_tags sample_decoded.
            fst (read_utf8_string sample_mem ((skip_string sample_mem ^^ i) f_poi)) = Inr (poi_tags sample_decoded ! i))
      \<and> read_unsigned sample_mem 2 ((skip_string sample_mem ^^ num_poi_tags sample_decoded) f_poi) = (Inr (num_way_tags sample_decoded), f_way)
      \<and> length (way_tags sample_decoded) = num_way_tags sample_decoded
      \<and> (\<forall>i<num_way_tags sample_decoded.
            fst (read_utf8_string sample_mem ((skip_string sample_mem ^^ i) f_way)) = Inr (way_tags sample_decoded ! i))
      \<and> read_byte sample_mem ((skip_string sample_mem ^^ num_way_tags sample_decoded) f_way) = (Inr (num_zoom_intervals sample_decoded), f_zoom)
      \<and> length (zoom_intervals sample_decoded) = num_zoom_intervals sample_decoded
      \<and> (\<forall>i<num_zoom_intervals sample_decoded.
            fst (read_zoom_interval sample_mem ((skip_zoom_interval sample_mem ^^ i) f_zoom)) =
              Inr (zoom_intervals sample_decoded ! i)))
   \<and> extract_tags sample_mem (new_reader ''a.map'') sample_buffer =
       (True, (new_reader ''a.map'')\<lparr>tags := Some \<lparr>poi_tags = poi_tags sample_decoded, way_tags = way_tags sample_decoded,
                                  zoom_intervals = zoom_intervals sample_decoded\<rparr>\<rparr>)"
proof -
  have h: "decode sample_mem (open_file sample_buffer) = (Inr sample_decoded, Stream [] 144)"
    by (simp add: sample_decode sample_decoded_def)
  show ?thesis by (rule conjI [OF h decoded_lengths_and_order [OF h]])
qed

subsection \<open>Ill-formed UTF-8 in a string\<close>

lemma step_drop_shorter:
  "bs \<noteq> [] \<Longrightarrow> utf8_step bs = (r, k) \<Longrightarrow> length (drop k bs) < length bs"
  using utf8_step_consumes [of bs] by simp

lemma ignore_unfold:
  "bs \<noteq> [] \<Longrightarrow> utf8_step bs = (r, k) \<Longrightarrow>
   utf8_decode_ignore bs =
     (case r of Some cp \<Rightarrow> [cp] | None \<Rightarrow> []) @ utf8_decode_ignore (drop k bs)"
  by (subst utf8_decode_ignore.simps) (simp split: option.splits)

lemma replace_unfold:
  "bs \<noteq> [] \<Longrightarrow> utf8_step bs = (r, k) \<Longrightarrow>
   utf8_decode_replace bs =
     (case r of Some cp \<Rightarrow> cp | None \<Rightarrow> 0xFFFD) # utf8_decode_replace (drop k bs)"
  by (subst utf8_decode_replace.simps) (simp split: option.splits)

lemma well_formed_unfold:
  "bs \<noteq> [] \<Longrightarrow> utf8_step bs = (r, k) \<Longrightarrow>
   utf8_well_formed bs \<longleftrightarrow> r \<noteq> None \<and> utf8_well_formed (drop k bs)"
  by (subst utf8_well_formed.simps) (simp split: option.splits)

lemma decode_Nil [simp]:
  "utf8_decode_replace [] = []" "utf8_well_formed []"
  by (simp_all add: utf8_decode_replace.simps utf8_well_formed.simps)

lemma ignore_filter_replace:
  "filter (\<lambda>c. c \<noteq> 0xFFFD) (utf8_decode_ignore bs) =
   filter (\<lambda>c. c \<noteq> 0xFFFD) (utf8_decode_replace bs)"
proof (induction bs rule: length_induct)
  case (1 bs)
  show ?case
  proof (cases "bs = []")
    case True
    then show ?thesis by simp
  next
    case False
    obtain r k where s: "utf8_step bs = (r, k)" by (cases "utf8_step bs")
    from 1 step_drop_shorter [OF False s]
    have "filter (\<lambda>c. c \<noteq> 0xFFFD) (utf8_decode_ignore (drop k bs)) =
          filter (\<lambda>c. c \<noteq> 0xFFFD) (utf8_decode_replace (drop k bs))" by blast
    then show ?thesis
      by (simp add: ignore_unfold [OF False s] replace_unfold [OF False s] split: option.splits)
  qed
qed

lemma ignore_subseq_replace: "subseq (utf8_decode_ignore bs) (utf8_decode_replace bs)"
proof (induction bs rule: length_induct)
  case (1 bs)
  show ?case
  proof (cases "bs = []")
    case True
    then show ?thesis by simp
  next
    case False
    obtain r k where s: "utf8_step bs = (r, k)" by (cases "utf8_step bs")
    from 1 step_drop_shorter [OF False s]
    have "subseq (utf8_decode_ignore (drop k bs)) (utf8_decode_replace (drop k bs))" by blast
    then show ?thesis
      by (auto simp: ignore_unfold [OF False s] replace_unfold [OF False s]
          split: option.splits intro: list_emb_Cons)
  qed
qed

lemma ignore_shorter_replace:
  "length (utf8_decode_ignore bs) \<le> length (utf8_decode_replace bs) \<and>
   (\<not> utf8_well_formed bs \<longrightarrow> length (utf8_decode_ignore bs) < length (utf8_decode_replace bs))"
proof (induction bs rule: length_induct)
  case (1 bs)
  show ?case
  proof (cases "bs = []")
    case True
    then show ?thesis by simp
  next
    case False
    obtain r k where s: "utf8_step bs = (r, k)" by (cases "utf8_step bs")
    from 1 step_drop_shorter [OF False s]
    have "length (utf8_decode_ignore (drop k bs)) \<le> length (utf8_decode_replace (drop k bs)) \<and>
      (\<not> utf8_well_formed (drop k bs) \<longrightarrow>
         length (utf8_decode_ignore (drop k bs)) < length (utf8_decode_replace (drop k bs)))"
      by blast
    then show ?thesis
      by (auto simp: ignore_unfold [OF False s] replace_unfold [OF False s]
          well_formed_unfold [OF False s] split: option.splits)
  qed
qed

lemma well_formed_ignore_eq_replace:
  "utf8_well_formed bs \<Longrightarrow> utf8_decode_ignore bs = utf8_decode_replace bs"
proof (induction bs rule: length_induct)
  case (1 bs)
  show ?case
  proof (cases "bs = []")
    case True
    then show ?thesis by simp
  next
    case False
    obtain r k where s: "utf8_step bs = (r, k)" by (cases "utf8_step bs")
    from 1(2) have w: "r \<noteq> None" "utf8_well_formed (drop k bs)"
      by (simp_all add: well_formed_unfold [OF False s])
    from 1(1) step_drop_shorter [OF False s] w(2)
    have "utf8_decode_ignore (drop k bs) = utf8_decode_replace (drop k bs)" by blast
    with w(1) show ?thesis
      by (auto simp: ignore_unfold [OF False s] replace_unfold [OF False s])
  qed
qed

lemma ignore_Cons:
  "utf8_decode_ignore (b # bs) =
     (case utf8_step (b # bs) of
        (Some cp, k) \<Rightarrow> cp # utf8_decode_ignore (drop k (b # bs))
      | (None, k) \<Rightarrow> utf8_decode_ignore (drop k (b # bs)))"
  by (subst utf8_decode_ignore.simps) simp

lemma replace_Cons:
  "utf8_decode_replace (b # bs) =
     (case utf8_step (b # bs) of
        (Some cp, k) \<Rightarrow> cp # utf8_decode_replace (drop k (b # bs))
      | (None, k) \<Rightarrow> 0xFFFD # utf8_decode_replace (drop k (b # bs)))"
  by (subst utf8_decode_replace.simps) simp

lemma well_formed_Cons:
  "utf8_well_formed (b # bs) =
     (case utf8_step (b # bs) of
        (Some cp, k) \<Rightarrow> utf8_well_formed (drop k (b # bs))
      | (None, k) \<Rightarrow> False)"
  by (subst utf8_well_formed.simps) simp

lemma f_read_Inr:
  "f_read mem n f = (Inr buf, f') \<Longrightarrow>
   buf = take n (rest f) \<and> f' = Stream (drop n (rest f)) (pos f + length buf)"
  by (cases f) (auto simp: f_read.simps split: if_splits)

text \<open>
  The claim C2 as stated fails: the one-byte payload \<open>0xFF\<close> is not well-formed UTF-8,
  the replacing decoder would give \<open>U+FFFD\<close> for it, and \<^verbatim>\<open>read_utf8_string\<close> returns the
  empty string, which contains no replacement character.
\<close>

theorem invalid_utf8_not_replaced:
  "\<not> utf8_well_formed [0xFF]
   \<and> utf8_decode_replace [0xFF] = [0xFFFD]
   \<and> read_utf8_string sample_mem (Stream [0x01, 0xFF] 0) = (Inr [], Stream [] 2)
   \<and> 0xFFFD \<notin> set (projr (fst (read_utf8_string sample_mem (Stream [0x01, 0xFF] 0))))"
  by (simp add: well_formed_Cons replace_Cons ignore_Cons read_utf8_string_def
      read_variable_byte_def f_read_small)

text \<open>
  C2, amended: for every length-prefixed string whose payload, as \<^verbatim>\<open>f.read(length)\<close>
  returned it, contains an ill-formed UTF-8 sequence, \<^verbatim>\<open>read_utf8_string\<close> returns a
  string and raises nothing, and that string is the lenient decoding with the ill-formed
  sequences left out, not replaced: it agrees with the replacing decoder on every
  character other than \<open>U+FFFD\<close>, is a subsequence of its output, and is strictly
  shorter. The payload is the next \<open>n\<close> bytes of the stream, or all that remain.
\<close>

theorem read_utf8_string_drops_invalid:
  assumes "read_variable_byte f = (Some n, f')" and "n \<noteq> 0"
    and "f_read mem n f' = (Inr payload, f'')"
    and "\<not> utf8_well_formed payload"
  shows "payload = take n (rest f')
       \<and> read_utf8_string mem f = (Inr (utf8_decode_ignore payload), f'')
       \<and> filter (\<lambda>c. c \<noteq> 0xFFFD) (utf8_decode_ignore payload) =
           filter (\<lambda>c. c \<noteq> 0xFFFD) (utf8_decode_replace payload)
       \<and> subseq (utf8_decode_ignore payload) (utf8_decode_replace payload)
       \<and> length (utf8_decode_ignore payload) < length (utf8_decode_replace payload)"
proof -
  from assms(3) have pl: "payload = take n (rest f')"
    by (simp add: f_read_Inr)
  have r: "read_utf8_string mem f = (Inr (utf8_decode_ignore payload), f'')"
    using assms(1,2,3) by (simp add: read_utf8_string_def)
  show ?thesis
    using pl r ignore_filter_replace [of payload] ignore_subseq_replace [of payload]
      ignore_shorter_replace [of payload] assms(4)
    by simp
qed

theorem read_utf8_string_drops_invalid_witness:
  "read_variable_byte (Stream [0x03, 0x61, 0xFF, 0x62] 0) = (Some 3, Stream [0x61, 0xFF, 0x62] 1)
   \<and> (3::nat) \<noteq> 0
   \<and> f_read sample_mem 3 (Stream [0x61, 0xFF, 0x62] 1) = (Inr [0x61, 0xFF, 0x62], Stream [] 4)
   \<and> \<not> utf8_well_formed [0x61, 0xFF, 0x62]
   \<and> read_utf8_string sample_mem (Stream [0x03, 0x61, 0xFF, 0x62] 0) =
       (Inr [0x61, 0x62], Stream [] 4)
   \<and> utf8_decode_replace [0x61, 0xFF, 0x62] = [0x61, 0xFFFD, 0x62]
   \<and> length (utf8_decode_ignore [0x61, 0xFF, 0x62])
       < length (utf8_decode_replace [0x61, 0xFF, 0x62])"
proof -
  have v: "read_variable_byte (Stream [0x03, 0x61, 0xFF, 0x62] 0) =
             (Some 3, Stream [0x61, 0xFF, 0x62] 1)"
    by (simp add: read_variable_byte_def)
  have n: "(3::nat) \<noteq> 0" by simp
  have rd: "f_read sample_mem 3 (Stream [0x61, 0xFF, 0x62] 1) =
              (Inr [0x61, 0xFF, 0x62], Stream [] 4)"
    by (simp add: f_read_small)
  have w: "\<not> utf8_well_formed [0x61, 0xFF, 0x62]"
    by (simp add: well_formed_Cons)
  have i: "utf8_decode_ignore [0x61, 0xFF, 0x62] = [0x61, 0x62]"
    by (simp add: ignore_Cons)
  have p: "utf8_decode_replace [0x61, 0xFF, 0x62] = [0x61, 0xFFFD, 0x62]"
    by (simp add: replace_Cons)
  from read_utf8_string_drops_invalid [OF v n rd w] v rd w i p show ?thesis
    by simp
qed

end
